theory Spec2Isabelle
  imports Complex_Main "HOL-Library.AList" "HOL-Library.Sublist"
begin

section \<open>Strings\<close>

text \<open>
  The program works on Python \<open>str\<close> values. They are modelled as HOL strings and read as
  ASCII text: the letters \<open>a\<close> .. \<open>z\<close> are the only characters \<open>upper_char\<close> changes, and the
  white space characters are the ten ASCII ones that \<open>str.isspace\<close> accepts (tab, line
  feed, vertical tab, form feed, carriage return, the four separators 0x1C .. 0x1F and the
  blank). Characters outside ASCII are left alone by the model; Python's Unicode case
  mapping and Unicode white space are not part of it.
\<close>

definition is_space :: "char \<Rightarrow> bool" where
  "is_space c = (c \<in> set [CHR 0x09, CHR 0x0A, CHR 0x0B, CHR 0x0C, CHR 0x0D,
                           CHR 0x1C, CHR 0x1D, CHR 0x1E, CHR 0x1F, CHR '' ''])"

definition is_digit :: "char \<Rightarrow> bool" where
  "is_digit c = (c \<in> set ''0123456789'')"

definition is_upper_AZ :: "char \<Rightarrow> bool" where
  "is_upper_AZ c = (c \<in> set ''ABCDEFGHIJKLMNOPQRSTUVWXYZ'')"

definition upper_char :: "char \<Rightarrow> char" where
  "upper_char c =
     (case map_of (zip ''abcdefghijklmnopqrstuvwxyz'' ''ABCDEFGHIJKLMNOPQRSTUVWXYZ'') c of
        Some u \<Rightarrow> u
      | None \<Rightarrow> c)"

text \<open>\<open>str.upper\<close>.\<close>

definition upper :: "string \<Rightarrow> string" where
  "upper s = map upper_char s"

text \<open>\<open>str.strip\<close> without argument: white space is removed at both ends.\<close>

definition strip :: "string \<Rightarrow> string" where
  "strip s = rev (dropWhile is_space (rev (dropWhile is_space s)))"

text \<open>\<open>str.startswith\<close>, \<open>str.endswith\<close> and the operator \<open>in\<close> on strings.\<close>

fun startswith :: "string \<Rightarrow> string \<Rightarrow> bool" where
  "startswith s [] = True"
| "startswith [] (p # ps) = False"
| "startswith (c # cs) (p # ps) = (c = p \<and> startswith cs ps)"

definition endswith :: "string \<Rightarrow> string \<Rightarrow> bool" where
  "endswith s sfx = startswith (rev s) (rev sfx)"

fun contains :: "string \<Rightarrow> string \<Rightarrow> bool" where
  "contains [] sub = (sub = [])"
| "contains (c # cs) sub = (startswith (c # cs) sub \<or> contains cs sub)"

text \<open>
  \<open>str.split\<close> without argument cuts at every run of white space and returns the words
  between the runs, none of them empty; \<open>sep.join\<close> puts a list of strings together.
\<close>

function split_ws :: "string \<Rightarrow> string list" where
  "split_ws s =
     (case dropWhile is_space s of
        [] \<Rightarrow> []
      | c # cs \<Rightarrow> (c # takeWhile (\<lambda>x. \<not> is_space x) cs)
                  # split_ws (dropWhile (\<lambda>x. \<not> is_space x) cs))"
  by pat_completeness auto
termination
proof (relation "measure length", goal_cases)
  case 1
  show ?case by simp
next
  case (2 s c cs)
  have "length (dropWhile (\<lambda>x. \<not> is_space x) cs) \<le> length cs"
    by (rule length_dropWhile_le)
  moreover have "length (dropWhile is_space s) \<le> length s"
    by (rule length_dropWhile_le)
  ultimately show ?case using 2 by simp
qed

declare split_ws.simps [simp del]

fun join_with :: "string \<Rightarrow> string list \<Rightarrow> string" where
  "join_with sep [] = []"
| "join_with sep [w] = w"
| "join_with sep (w # v # ws) = w @ sep @ join_with sep (v # ws)"

text \<open>A word, as \<open>str.split\<close> returns them: not empty and free of white space.\<close>

definition is_word :: "string \<Rightarrow> bool" where
  "is_word w = (w \<noteq> [] \<and> (\<forall>c\<in>set w. \<not> is_space c))"

section \<open>The text normalizer\<close>

text \<open>
  The regular expression \<open>\s+ON\s+\d{2}\s+[A-Z]{3}\<close> of \<open>clean_transaction_details\<close>. Each
  \<open>\s+\<close> is followed by an atom that no white space character matches, so the greedy match
  of the run is the only one that can succeed and the matcher needs no backtracking.
  \<open>match_date s\<close> is the rest of \<open>s\<close> behind a match that starts at the first character.
\<close>

definition match_spaces :: "string \<Rightarrow> string option" where
  "match_spaces s =
     (case s of [] \<Rightarrow> None
      | c # cs \<Rightarrow> if is_space c then Some (dropWhile is_space cs) else None)"

definition match_lit :: "string \<Rightarrow> string \<Rightarrow> string option" where
  "match_lit p s = (if startswith s p then Some (drop (length p) s) else None)"

definition match_class :: "(char \<Rightarrow> bool) \<Rightarrow> nat \<Rightarrow> string \<Rightarrow> string option" where
  "match_class P n s =
     (if n \<le> length s \<and> list_all P (take n s) then Some (drop n s) else None)"

definition match_date :: "string \<Rightarrow> string option" where
  "match_date s =
     Option.bind (match_spaces s) (\<lambda>s1.
     Option.bind (match_lit ''ON'' s1) (\<lambda>s2.
     Option.bind (match_spaces s2) (\<lambda>s3.
     Option.bind (match_class is_digit 2 s3) (\<lambda>s4.
     Option.bind (match_spaces s4) (\<lambda>s5.
     match_class is_upper_AZ 3 s5)))))"

lemma match_spaces_length: "match_spaces s = Some r \<Longrightarrow> length r < length s"
  using length_dropWhile_le [of is_space "tl s"]
  by (cases s) (auto simp: match_spaces_def less_Suc_eq_le split: if_splits)

lemma match_lit_length: "match_lit p s = Some r \<Longrightarrow> length r \<le> length s"
  by (auto simp: match_lit_def split: if_splits)

lemma match_class_length: "match_class P n s = Some r \<Longrightarrow> length r \<le> length s"
  by (auto simp: match_class_def split: if_splits)

lemma match_date_length:
  assumes "match_date s = Some r"
  shows "length r < length s"
proof -
  from assms obtain s1 s2 s3 s4 s5 where
    m: "match_spaces s = Some s1" "match_lit ''ON'' s1 = Some s2" "match_spaces s2 = Some s3"
       "match_class is_digit 2 s3 = Some s4" "match_spaces s4 = Some s5"
       "match_class is_upper_AZ 3 s5 = Some r"
    by (auto simp: match_date_def Option.bind_eq_Some_conv)
  have "length s1 < length s" using m(1) by (rule match_spaces_length)
  moreover have "length s2 \<le> length s1" using m(2) by (rule match_lit_length)
  moreover have "length s3 < length s2" using m(3) by (rule match_spaces_length)
  moreover have "length s4 \<le> length s3" using m(4) by (rule match_class_length)
  moreover have "length s5 < length s4" using m(5) by (rule match_spaces_length)
  moreover have "length r \<le> length s5" using m(6) by (rule match_class_length)
  ultimately show ?thesis by linarith
qed

text \<open>
  \<open>re.sub(pattern, '', details)\<close>: the string is scanned from the left; where the pattern
  matches, the match is dropped and the scan goes on behind it, elsewhere the character is
  kept.
\<close>

function remove_dates :: "string \<Rightarrow> string" where
  "remove_dates [] = []"
| "remove_dates (c # cs) =
     (case match_date (c # cs) of
        Some rest \<Rightarrow> remove_dates rest
      | None \<Rightarrow> c # remove_dates cs)"
  by pat_completeness auto
termination
  by (relation "measure length") (auto dest: match_date_length)

definition suffixes_to_remove :: "string list" where
  "suffixes_to_remove = ['' CPM'', '' CLP'', '' BCC'', '' DDR'', '' BGC'', '' STO'', '' FT'']"

text \<open>The body of the loop over the suffixes, and the loop.\<close>

definition strip_suffix :: "string \<Rightarrow> string \<Rightarrow> string" where
  "strip_suffix details sfx =
     (if endswith details sfx then take (length details - length sfx) details
      else details)"

definition strip_suffixes :: "string \<Rightarrow> string" where
  "strip_suffixes details = foldl strip_suffix details suffixes_to_remove"

definition clean_transaction_details :: "string \<Rightarrow> string" where
  "clean_transaction_details details =
     join_with '' '' (split_ws (remove_dates (strip_suffixes (strip (upper details)))))"

section \<open>The category store and the session state\<close>

text \<open>
  The store is a Python \<open>dict\<close> from category names to keyword lists. Its iteration order
  is its insertion order, so it is an association list; a \<open>dict\<close> holds each key once.
\<close>

type_synonym store = "(string \<times> string list) list"

definition DEFAULT_CATEGORIES :: store where
  "DEFAULT_CATEGORIES =
    [(''Uncategorized'', []),
     (''Groceries'', [''COOP'', ''TESCO'', ''SAINSBURY'', ''ALDI'', ''LIDL'', ''ASDA'',
                      ''MORRISONS'', ''WAITROSE'']),
     (''Dining & Pubs'', [''COSTA'', ''STARBUCKS'', ''CAFE'', ''RESTAURANT'', ''PUB'', ''BAR'',
                          ''DORSET ARMS'', ''MARINERS INN'']),
     (''Transport'', [''TRANSPORT'', ''TAXI'', ''UBER'', ''TRAIN'', ''BUS'', ''FUEL'', ''PARKING'']),
     (''Shopping'', [''AMAZON'', ''NEXT'', ''MARKS'', ''SPENCER'', ''BOOTS'']),
     (''Bills & Utilities'', [''ELECTRIC'', ''GAS'', ''WATER'', ''COUNCIL TAX'', ''TV LICENSE'',
                              ''INTERNET'', ''PHONE'', ''GOOGLE ONE'']),
     (''Entertainment'', [''CINEMA'', ''NETFLIX'', ''SPOTIFY'', ''STEAM'', ''EVE ONLINE'']),
     (''Health'', [''NHS'', ''PHARMACY'', ''DENTAL'', ''OPTICAL'']),
     (''Rent & Housing'', [''RENT'', ''MORTGAGE'', ''INSURANCE'']),
     (''Transfers'', [''REVOLUT'', ''TRANSFER'', ''BGC'', ''SAVINGS'']),
     (''Direct Debits'', [''DDR'', ''DIRECT DEBIT'']),
     (''Salary'', [''ARCADIA EXPR          SALARY'']),
     (''Bonus'', [''ARCADIA EXPR          BONUS'']),
     (''Interest'', [''INTEREST'']),
     (''Refunds'', [''REFUND'', ''REBATE'']),
     (''Other Income'', [])]"

text \<open>
  Exceptions are values. The text of an error is what \<open>str(e)\<close> gives; for a \<open>KeyError\<close>
  that is the key between quotes.
\<close>

datatype error =
  KeyError string | ValueError string | IndexError | ZeroDivisionError | OtherError string

fun error_text :: "error \<Rightarrow> string" where
  "error_text (KeyError k) = [CHR 0x27] @ k @ [CHR 0x27]"
| "error_text (ValueError m) = m"
| "error_text IndexError = ''list index out of range''"
| "error_text ZeroDivisionError = ''float division by zero''"
| "error_text (OtherError m) = m"

record date =
  year :: nat
  month :: nat
  day :: nat

text \<open>
  A row of the transaction table. The column \<open>Debit/Credit\<close> holds the strings
  \<open>Credit\<close> and \<open>Debit\<close>. Amounts are Python floats, modelled as real numbers: the
  claims use their sign and exact sums only.
\<close>

record transaction =
  Date :: date
  Details :: string
  Amount :: real
  Debit_Credit :: string
  Category :: string

text \<open>
  The session state \<open>st.session_state\<close> together with the file \<open>categories.json\<close>
  (\<open>None\<close> while the file does not exist). \<open>json.dump\<close> followed by \<open>json.load\<close> gives
  the store back.
\<close>

record session =
  categories :: store
  category_file :: "store option"
  debits_df :: "transaction list option"

text \<open>
  Lines 36 to 41, run at the start of every script run: the default store is taken when
  the session has none, and the content of the file replaces the store when the file exists.
\<close>

definition init_categories :: "store option \<Rightarrow> store option \<Rightarrow> store" where
  "init_categories in_session file =
     (let cats = (case in_session of None \<Rightarrow> DEFAULT_CATEGORIES | Some c \<Rightarrow> c)
      in case file of None \<Rightarrow> cats | Some loaded \<Rightarrow> loaded)"

definition save_categories :: "session \<Rightarrow> session" where
  "save_categories st = st\<lparr>category_file := Some (categories st)\<rparr>"

definition extract_keyword :: "string \<Rightarrow> string" where
  "extract_keyword details = clean_transaction_details details"

text \<open>
  \<open>add_keyword_to_category\<close>. The operator \<open>and\<close> looks the category up only when the
  keyword is not empty; the lookup \<open>categories[category]\<close> raises \<open>KeyError\<close> for a name
  that is no key.
\<close>

definition add_keyword_to_category ::
    "string \<Rightarrow> string \<Rightarrow> session \<Rightarrow> (error + bool) \<times> session" where
  "add_keyword_to_category category details st =
     (let keyword = upper (strip (extract_keyword details)) in
      if keyword = [] then (Inr False, st)
      else case map_of (categories st) category of
             None \<Rightarrow> (Inl (KeyError category), st)
           | Some keywords \<Rightarrow>
               if keyword \<notin> set keywords
               then (Inr True,
                     save_categories
                       (st\<lparr>categories :=
                            AList.map_entry category (\<lambda>ks. ks @ [keyword]) (categories st)\<rparr>))
               else (Inr False, st))"

text \<open>The button \<open>Add Category\<close> of \<open>main\<close> (lines 157 to 161).\<close>

definition add_category :: "string \<Rightarrow> session \<Rightarrow> session" where
  "add_category new_category st =
     (if new_category \<noteq> [] \<and> new_category \<notin> set (map fst (categories st))
      then save_categories (st\<lparr>categories := categories st @ [(new_category, [])]\<rparr>)
      else st)"

text \<open>The session of a first run without a persisted file.\<close>

definition initial_session :: session where
  "initial_session = \<lparr>categories = DEFAULT_CATEGORIES, category_file = None, debits_df = None\<rparr>"

text \<open>
  A session whose store was read from a file that lists a keyword twice: \<open>json.load\<close>
  gives the lists of the file as they are.
\<close>

definition repeated_session :: session where
  "repeated_session =
     \<lparr>categories = [(''Uncategorized'', []), (''Food'', [''TESCO'', ''TESCO''])],
      category_file = Some [(''Uncategorized'', []), (''Food'', [''TESCO'', ''TESCO''])],
      debits_df = None\<rparr>"

text \<open>A row used in the examples.\<close>

definition rent_row :: transaction where
  "rent_row = \<lparr>Date = \<lparr>year = 2024, month = 3, day = 1\<rparr>, Details = ''RENT'', Amount = -500,
               Debit_Credit = ''Debit'', Category = []\<rparr>"

section \<open>The categorizer\<close>

text \<open>
  \<open>any(keyword.upper() in cleaned_details for keyword in keywords)\<close>, for the details of
  one row.
\<close>

definition keyword_matches :: "string list \<Rightarrow> string \<Rightarrow> bool" where
  "keyword_matches keywords details =
     list_ex (\<lambda>keyword. contains (clean_transaction_details details) (upper keyword)) keywords"

text \<open>
  The inner loop visits every row of the table and writes the category into the rows that
  match; a row is tested on its own details only, so the loop is a \<open>map\<close>.
\<close>

definition assign_category :: "string \<Rightarrow> string list \<Rightarrow> transaction list \<Rightarrow> transaction list" where
  "assign_category category keywords df =
     map (\<lambda>row. if keyword_matches keywords (Details row) then row\<lparr>Category := category\<rparr>
                 else row) df"

text \<open>The body of the outer loop over the items of the store, and \<open>categorize_transactions\<close>.\<close>

definition categorize_step :: "transaction list \<Rightarrow> string \<times> string list \<Rightarrow> transaction list" where
  "categorize_step df item =
     (case item of (category, keywords) \<Rightarrow>
        if category = ''Uncategorized'' \<or> keywords = [] then df
        else assign_category category keywords df)"

definition categorize_transactions :: "store \<Rightarrow> transaction list \<Rightarrow> transaction list" where
  "categorize_transactions cats df =
     foldl categorize_step (map (\<lambda>row. row\<lparr>Category := ''Uncategorized''\<rparr>) df) cats"

text \<open>
  What the loops leave in one row: the categories of the store that are not skipped and have
  a keyword in the cleaned details of the row, in the order of the store, and the row after
  all of them have written their name into it.
\<close>

definition matching_categories :: "store \<Rightarrow> string \<Rightarrow> string list" where
  "matching_categories cats details =
     map fst (filter (\<lambda>item. fst item \<noteq> ''Uncategorized'' \<and> snd item \<noteq> []
                              \<and> keyword_matches (snd item) details) cats)"

definition final_category :: "store \<Rightarrow> transaction \<Rightarrow> transaction" where
  "final_category cats row =
     (case rev (matching_categories cats (Details row)) of
        [] \<Rightarrow> row
      | category # _ \<Rightarrow> row\<lparr>Category := category\<rparr>)"

section \<open>The transaction loader\<close>

text \<open>
  \<open>pd.read_csv\<close>, the conversion of a cell to a float and \<open>pd.to_datetime\<close> belong to
  pandas: they are parameters of the loader, each giving a value or the exception it raises.
  What \<open>read_csv\<close> returns is a frame of named columns of cell texts.
\<close>

type_synonym frame = "(string \<times> string list) list"

definition bind_err :: "error + 'a \<Rightarrow> ('a \<Rightarrow> error + 'b) \<Rightarrow> error + 'b" where
  "bind_err r f = (case r of Inl e \<Rightarrow> Inl e | Inr x \<Rightarrow> f x)"

text \<open>A conversion applied to a whole column stops at the first cell that raises.\<close>

fun traverse :: "('a \<Rightarrow> error + 'b) \<Rightarrow> 'a list \<Rightarrow> error + 'b list" where
  "traverse f [] = Inr []"
| "traverse f (x # xs) =
     bind_err (f x) (\<lambda>y. bind_err (traverse f xs) (\<lambda>ys. Inr (y # ys)))"

definition column :: "frame \<Rightarrow> string \<Rightarrow> error + string list" where
  "column df name = (case map_of df name of None \<Rightarrow> Inl (KeyError name) | Some cells \<Rightarrow> Inr cells)"

definition select_columns :: "frame \<Rightarrow> string list \<Rightarrow> error + frame" where
  "select_columns df names =
     traverse (\<lambda>name. bind_err (column df name) (\<lambda>cells. Inr (name, cells))) names"

definition rename_column :: "string \<Rightarrow> string \<Rightarrow> frame \<Rightarrow> frame" where
  "rename_column old new df = map (\<lambda>(col, cells). (if col = old then new else col, cells)) df"

definition required_columns :: "string list" where
  "required_columns = [''Date'', ''Details'', ''Amount'', ''Debit/Credit'']"

definition missing_columns_message :: string where
  "missing_columns_message =
     ''Missing required columns. File must contain: '' @
     ''['' @ [CHR 0x27] @ ''Date'' @ [CHR 0x27] @ '', '' @ [CHR 0x27] @ ''Details'' @ [CHR 0x27] @
     '', '' @ [CHR 0x27] @ ''Amount'' @ [CHR 0x27] @ '', '' @ [CHR 0x27] @ ''Debit/Credit'' @
     [CHR 0x27] @ '']''"

definition direction :: "real \<Rightarrow> string" where
  "direction x = (if x > 0 then ''Credit'' else ''Debit'')"

text \<open>The rows of the frame \<open>df[required_columns]\<close>; the columns of a frame have one length.\<close>

definition make_rows ::
    "date list \<Rightarrow> string list \<Rightarrow> real list \<Rightarrow> string list \<Rightarrow> transaction list" where
  "make_rows dates details amounts directions =
     map (\<lambda>(d, t, a, c). \<lparr>Date = d, Details = t, Amount = a, Debit_Credit = c, Category = []\<rparr>)
         (zip dates (zip details (zip amounts directions)))"

text \<open>Line 80 strips the column names; line 83 recognises the Barclays format.\<close>

definition strip_columns :: "frame \<Rightarrow> frame" where
  "strip_columns raw = map (\<lambda>(col, cells). (strip col, cells)) raw"

definition is_barclays :: "frame \<Rightarrow> bool" where
  "is_barclays df = (''Subcategory'' \<in> set (map fst df) \<and> ''Memo'' \<in> set (map fst df))"

text \<open>The body of the \<open>try\<close> block of \<open>load_transactions\<close>, from line 80 on.\<close>

definition load_frame ::
    "(string \<Rightarrow> error + real) \<Rightarrow> (string \<Rightarrow> error + date) \<Rightarrow> store \<Rightarrow> frame
       \<Rightarrow> error + transaction list" where
  "load_frame to_float to_datetime cats raw =
     (let df = strip_columns raw in
      bind_err
        (if is_barclays df
         then bind_err (select_columns df [''Date'', ''Amount'', ''Memo''])
                (\<lambda>sel. Inr (rename_column ''Memo'' ''Details'' sel))
         else Inr df)
        (\<lambda>df.
      bind_err (column df ''Amount'') (\<lambda>amount_cells.
      bind_err (traverse to_float amount_cells) (\<lambda>amounts.
      bind_err (column df ''Date'') (\<lambda>date_cells.
      bind_err (traverse to_datetime date_cells) (\<lambda>dates.
      let directions = map direction amounts;
          columns = map fst df @ [''Debit/Credit'']
      in if \<not> list_all (\<lambda>col. col \<in> set columns) required_columns
         then Inl (ValueError missing_columns_message)
         else bind_err (column df ''Details'') (\<lambda>details.
              Inr (categorize_transactions cats
                     (make_rows dates details amounts directions)))))))))"

definition load_body ::
    "('f \<Rightarrow> error + frame) \<Rightarrow> (string \<Rightarrow> error + real) \<Rightarrow> (string \<Rightarrow> error + date)
       \<Rightarrow> store \<Rightarrow> 'f \<Rightarrow> error + transaction list" where
  "load_body read_csv to_float to_datetime cats file =
     bind_err (read_csv file) (load_frame to_float to_datetime cats)"

text \<open>
  \<open>load_transactions\<close>: the clause \<open>except Exception\<close> catches whatever the body raises,
  shows the message with \<open>st.error\<close> and returns \<open>None\<close>. The result is the list of the
  messages shown and the value returned.
\<close>

definition load_transactions ::
    "('f \<Rightarrow> error + frame) \<Rightarrow> (string \<Rightarrow> error + real) \<Rightarrow> (string \<Rightarrow> error + date)
       \<Rightarrow> store \<Rightarrow> 'f \<Rightarrow> string list \<times> transaction list option" where
  "load_transactions read_csv to_float to_datetime cats file =
     (case load_body read_csv to_float to_datetime cats file of
        Inl e \<Rightarrow> ([''Error processing file: '' @ error_text e], None)
      | Inr df \<Rightarrow> ([], Some df))"

text \<open>
  The start of \<open>main\<close> for an uploaded file (lines 139 to 146): the session is written only
  when the loader has returned a table.
\<close>

definition main_upload ::
    "('f \<Rightarrow> error + frame) \<Rightarrow> (string \<Rightarrow> error + real) \<Rightarrow> (string \<Rightarrow> error + date)
       \<Rightarrow> 'f \<Rightarrow> session \<Rightarrow> string list \<times> session" where
  "main_upload read_csv to_float to_datetime file st =
     (case load_transactions read_csv to_float to_datetime (categories st) file of
        (shown, None) \<Rightarrow> (shown, st)
      | (shown, Some df) \<Rightarrow>
          (shown, st\<lparr>debits_df := Some (filter (\<lambda>row. Debit_Credit row = ''Debit'') df)\<rparr>))"

text \<open>
  An upload used in the examples: a frame as \<open>read_csv\<close> returns it (one column name
  with a trailing blank), a small store, and conversions that agree with pandas on the cells
  of the frame and raise \<open>ValueError\<close> on every other cell.
\<close>

definition example_store :: store where
  "example_store = [(''Uncategorized'', []), (''Groceries'', [''TESCO'']), (''Refunds'', [''REFUND''])]"

definition example_frame :: frame where
  "example_frame =
     [(''Date'', [''15/03/2024'', ''16/03/2024'', ''17/03/2024'']),
      (''Details '', [''TESCO STORES 1234 CLP'', ''REFUND'', ''PAYMENT'']),
      (''Amount'', [''-23.50'', ''5.00'', ''0''])]"

definition example_to_float :: "string \<Rightarrow> error + real" where
  "example_to_float cell =
     (case map_of [(''-23.50'', -23.5), (''5.00'', 5), (''0'', 0)] cell of
        Some x \<Rightarrow> Inr x
      | None \<Rightarrow> Inl (ValueError (''could not convert string to float: '' @
                                [CHR 0x27] @ cell @ [CHR 0x27])))"

definition example_to_datetime :: "string \<Rightarrow> error + date" where
  "example_to_datetime cell =
     (case map_of [(''15/03/2024'', \<lparr>year = 2024, month = 3, day = 15\<rparr>),
                   (''16/03/2024'', \<lparr>year = 2024, month = 3, day = 16\<rparr>),
                   (''17/03/2024'', \<lparr>year = 2024, month = 3, day = 17\<rparr>)] cell of
        Some d \<Rightarrow> Inr d
      | None \<Rightarrow> Inl (ValueError (''time data '' @ cell @ '' does not match format %d/%m/%Y'')))"

definition example_loaded :: "transaction list" where
  "example_loaded =
     [\<lparr>Date = \<lparr>year = 2024, month = 3, day = 15\<rparr>, Details = ''TESCO STORES 1234 CLP'',
       Amount = -23.5, Debit_Credit = ''Debit'', Category = ''Groceries''\<rparr>,
      \<lparr>Date = \<lparr>year = 2024, month = 3, day = 16\<rparr>, Details = ''REFUND'',
       Amount = 5, Debit_Credit = ''Credit'', Category = ''Refunds''\<rparr>,
      \<lparr>Date = \<lparr>year = 2024, month = 3, day = 17\<rparr>, Details = ''PAYMENT'',
       Amount = 0, Debit_Credit = ''Debit'', Category = ''Uncategorized''\<rparr>]"

text \<open>An upload whose amount is no number.\<close>

definition bad_amount_frame :: frame where
  "bad_amount_frame =
     [(''Date'', [''15/03/2024'']), (''Details'', [''TESCO STORES'']), (''Amount'', [''abc''])]"

section \<open>Savings projections, savings goal and budget progress\<close>








section \<open>The categorizer: which category a row ends with\<close>

lemma categorize_step_row:
  "categorize_step (map (final_category cats) df) item = map (final_category (cats @ [item])) df"
  by (cases item)
     (auto simp: categorize_step_def assign_category_def final_category_def
                 matching_categories_def split: list.splits)

lemma foldl_categorize_step:
  "foldl categorize_step df cats = map (final_category cats) df"
proof (induction cats rule: rev_induct)
  case Nil
  show ?case by (simp add: final_category_def matching_categories_def)
next
  case (snoc item cats)
  then show ?case by (simp add: categorize_step_row)
qed

text \<open>
  C1, as the code has it. The outer loop runs over the categories and its inner loop visits
  every row again, so a later category overwrites an earlier one: each row ends with the
  LAST category of the store (in insertion order) that is not \<open>Uncategorized\<close>, has
  keywords and has a keyword in the cleaned details, and with \<open>Uncategorized\<close> when
  there is none.
\<close>

theorem categorize_last_match_wins:
  "map Category (categorize_transactions cats df) =
     map (\<lambda>row. case rev (matching_categories cats (Details row)) of
                   [] \<Rightarrow> ''Uncategorized''
                 | category # _ \<Rightarrow> category) df"
  by (simp add: categorize_transactions_def foldl_categorize_step final_category_def
           split: list.splits)

lemma clean_FOOBAR: "clean_transaction_details ''FOOBAR'' = ''FOOBAR''"
  by code_simp

lemma FOO_matches_FOOBAR: "keyword_matches [''FOO''] ''FOOBAR''"
  by (simp add: keyword_matches_def clean_FOOBAR upper_def upper_char_def)

lemma FOOBAR_matches_FOOBAR: "keyword_matches [''FOOBAR''] ''FOOBAR''"
  by (simp add: keyword_matches_def clean_FOOBAR upper_def upper_char_def)

text \<open>
  C1 as the specification states it (the first matching category wins) fails: with the
  store A: FOO, B: FOOBAR, a transaction FOOBAR ends in B, not in A.
\<close>

theorem categorize_first_match_counterexample:
  "map Category
     (categorize_transactions [(''A'', [''FOO'']), (''B'', [''FOOBAR''])]
        [\<lparr>Date = \<lparr>year = 2024, month = 3, day = 15\<rparr>, Details = ''FOOBAR'', Amount = -1,
          Debit_Credit = ''Debit'', Category = []\<rparr>]) = [''B'']"
  by (simp add: categorize_transactions_def categorize_step_def assign_category_def
        FOO_matches_FOOBAR FOOBAR_matches_FOOBAR)

text \<open>
  C10. The categorizer writes the column \<open>Category\<close> only: the table keeps its number of
  rows and their order, and the columns \<open>Date\<close>, \<open>Details\<close>, \<open>Amount\<close> and
  \<open>Debit/Credit\<close> are the same lists before and after.
\<close>

theorem categorize_changes_only_category:
  "length (categorize_transactions cats df) = length df
   \<and> map Date (categorize_transactions cats df) = map Date df
   \<and> map Details (categorize_transactions cats df) = map Details df
   \<and> map Amount (categorize_transactions cats df) = map Amount df
   \<and> map Debit_Credit (categorize_transactions cats df) = map Debit_Credit df"
  by (simp add: categorize_transactions_def foldl_categorize_step final_category_def
           split: list.splits)

section \<open>The category store: adding keywords\<close>

lemma keys_map_entry: "map fst (AList.map_entry k f al) = map fst al"
  by (induction al) auto

lemma map_of_map_entry_same:
  "map_of al k = Some v \<Longrightarrow> map_of (AList.map_entry k f al) k = Some (f v)"
  by (simp add: map_of_map_entry)

text \<open>
  C3, as the code has it. For a category name that is no key of the store,
  \<open>add_keyword_to_category\<close> never changes the session. It returns \<open>False\<close> when the
  keyword derived from the details is empty (the lookup is then not reached); otherwise the
  lookup \<open>categories[category]\<close> raises \<open>KeyError\<close>, which the function does not catch.
\<close>

theorem add_keyword_missing_category:
  assumes "category \<notin> set (map fst (categories st))"
  shows "add_keyword_to_category category details st =
           (if upper (strip (extract_keyword details)) = [] then Inr False
            else Inl (KeyError category), st)"
proof -
  have "map_of (categories st) category = None"
    using assms by (simp add: map_of_eq_None_iff)
  then show ?thesis by (simp add: add_keyword_to_category_def Let_def)
qed

text \<open>
  C9, as the code has it. For every category of the store and every details string, the
  second of two calls of \<open>add_keyword_to_category\<close> with the same details returns
  \<open>False\<close> and changes nothing. After the calls a keyword that is not empty occurs in the
  list of the category as often as before, and once if it was not there: exactly once when
  the list held it at most once. An empty keyword is never appended: the call returns
  \<open>False\<close> and the session is as before.
\<close>

theorem add_keyword_twice:
  assumes "map_of (categories st) category = Some keywords"
  shows "fst (add_keyword_to_category category details
                (snd (add_keyword_to_category category details st))) = Inr False
       \<and> snd (add_keyword_to_category category details
                (snd (add_keyword_to_category category details st)))
           = snd (add_keyword_to_category category details st)
       \<and> (upper (strip (extract_keyword details)) \<noteq> [] \<longrightarrow>
            (\<exists>ks. map_of (categories (snd (add_keyword_to_category category details st))) category
                     = Some ks
                 \<and> count_list ks (upper (strip (extract_keyword details)))
                     = max 1 (count_list keywords (upper (strip (extract_keyword details))))))
       \<and> (upper (strip (extract_keyword details)) = [] \<longrightarrow>
            add_keyword_to_category category details st = (Inr False, st))"
proof (cases "upper (strip (extract_keyword details)) = []")
  case True
  then show ?thesis by (simp add: add_keyword_to_category_def Let_def)
next
  case False
  show ?thesis
  proof (cases "upper (strip (extract_keyword details)) \<in> set keywords")
    case True
    then have "count_list keywords (upper (strip (extract_keyword details))) \<ge> 1"
      by (metis count_list_0_iff less_one not_le)
    then have "max 1 (count_list keywords (upper (strip (extract_keyword details))))
                 = count_list keywords (upper (strip (extract_keyword details)))"
      by simp
    with True False assms(1) show ?thesis
      by (simp add: add_keyword_to_category_def Let_def)
  next
    case notin: False
    then have "count_list keywords (upper (strip (extract_keyword details))) = 0"
      by (simp add: count_list_0_iff)
    with notin False assms(1) show ?thesis
      by (simp add: add_keyword_to_category_def Let_def save_categories_def map_of_map_entry_same)
  qed
qed

lemma keyword_of_blank: "upper (strip (extract_keyword ''   '')) = []"
  by code_simp

lemma keyword_of_TESCO: "upper (strip (extract_keyword ''TESCO'')) = ''TESCO''"
  by code_simp

lemma keyword_of_Ocado: "upper (strip (extract_keyword ''Ocado ddr'')) = ''OCADO''"
  by code_simp

lemma Holidays_no_key: "''Holidays'' \<notin> set (map fst (categories initial_session))"
  by (simp add: initial_session_def DEFAULT_CATEGORIES_def)

theorem add_keyword_missing_category_witness:
  "''Holidays'' \<notin> set (map fst (categories initial_session))
   \<and> add_keyword_to_category ''Holidays'' ''   '' initial_session = (Inr False, initial_session)"
  using add_keyword_missing_category [OF Holidays_no_key, of "''   ''"] Holidays_no_key
  by (simp add: keyword_of_blank)

text \<open>
  C3 as the specification states it (a false signal, never an exception) fails for a
  keyword that is not empty.
\<close>

theorem add_keyword_missing_category_counterexample:
  "add_keyword_to_category ''Holidays'' ''TESCO'' initial_session
     = (Inl (KeyError ''Holidays''), initial_session)"
  by (simp add: add_keyword_to_category_def keyword_of_TESCO initial_session_def
        DEFAULT_CATEGORIES_def)

lemma Groceries_keywords:
  "map_of (categories initial_session) ''Groceries'' =
     Some [''COOP'', ''TESCO'', ''SAINSBURY'', ''ALDI'', ''LIDL'', ''ASDA'', ''MORRISONS'',
           ''WAITROSE'']"
  by (simp add: initial_session_def DEFAULT_CATEGORIES_def)

theorem add_keyword_twice_witness:
  "map_of (categories initial_session) ''Groceries'' =
     Some [''COOP'', ''TESCO'', ''SAINSBURY'', ''ALDI'', ''LIDL'', ''ASDA'', ''MORRISONS'',
           ''WAITROSE'']
   \<and> fst (add_keyword_to_category ''Groceries'' ''Ocado ddr''
            (snd (add_keyword_to_category ''Groceries'' ''Ocado ddr'' initial_session)))
       = Inr False
   \<and> (\<exists>ks. map_of (categories (snd (add_keyword_to_category ''Groceries'' ''Ocado ddr''
                                       initial_session))) ''Groceries'' = Some ks
          \<and> count_list ks ''OCADO'' = 1)"
  using add_keyword_twice [OF Groceries_keywords, of "''Ocado ddr''"]
  by (simp add: keyword_of_Ocado Groceries_keywords)

text \<open>
  C9 as the specification states it (the keyword is present exactly once after two calls,
  for every existing category) fails for a list that was loaded with the keyword twice: both
  calls return \<open>False\<close> and the keyword stays twice.
\<close>

theorem add_keyword_repeated_counterexample:
  "map_of (categories repeated_session) ''Food'' = Some [''TESCO'', ''TESCO'']
   \<and> add_keyword_to_category ''Food'' ''TESCO'' repeated_session = (Inr False, repeated_session)
   \<and> snd (add_keyword_to_category ''Food'' ''TESCO''
            (snd (add_keyword_to_category ''Food'' ''TESCO'' repeated_session)))
       = repeated_session
   \<and> count_list [''TESCO'', ''TESCO''] (upper (strip (extract_keyword ''TESCO''))) = 2"
proof -
  have m: "map_of (categories repeated_session) ''Food'' = Some [''TESCO'', ''TESCO'']"
    by (simp add: repeated_session_def)
  have a: "add_keyword_to_category ''Food'' ''TESCO'' repeated_session
             = (Inr False, repeated_session)"
    by (simp add: add_keyword_to_category_def Let_def keyword_of_TESCO m)
  show ?thesis
    by (simp add: m a keyword_of_TESCO)
qed

section \<open>The key Uncategorized\<close>

lemma matching_categories_keys:
  "set (matching_categories cats details) \<subseteq> set (map fst cats)"
  by (auto simp: matching_categories_def)

lemma Category_final_category:
  "Category (final_category cats (row\<lparr>Category := ''Uncategorized''\<rparr>))
     \<in> insert ''Uncategorized'' (set (map fst cats))"
proof (cases "rev (matching_categories cats (Details row))")
  case Nil
  then show ?thesis by (simp add: final_category_def)
next
  case (Cons category rest)
  then have "category \<in> set (matching_categories cats (Details row))"
    by (metis list.set_intros(1) set_rev)
  then have "category \<in> set (map fst cats)"
    using matching_categories_keys by blast
  with Cons show ?thesis by (simp add: final_category_def)
qed

lemma categories_after_categorize:
  "set (map Category (categorize_transactions cats df))
     \<subseteq> insert ''Uncategorized'' (set (map fst cats))"
  using Category_final_category
  by (auto simp: categorize_transactions_def foldl_categorize_step)

lemma keys_add_category:
  "set (map fst (categories st)) \<subseteq> set (map fst (categories (add_category name st)))"
  by (auto simp: add_category_def save_categories_def)

lemma keys_add_keyword:
  "map fst (categories (snd (add_keyword_to_category category details st)))
     = map fst (categories st)"
  by (simp add: add_keyword_to_category_def Let_def save_categories_def keys_map_entry
           split: option.splits)

text \<open>
  C6, as the code has it. \<open>Uncategorized\<close> is a key of the default store, which is the
  store of a session without a persisted file; a persisted file replaces the store by its
  content, whatever that is. Neither \<open>add_category\<close> nor \<open>add_keyword_to_category\<close>
  removes a key. After categorization every category of the table is \<open>Uncategorized\<close> or
  a key of the store, so it is a key of the store whenever the store has the key
  \<open>Uncategorized\<close>.
\<close>

theorem uncategorized_key:
  "''Uncategorized'' \<in> set (map fst DEFAULT_CATEGORIES)
   \<and> init_categories None None = DEFAULT_CATEGORIES
   \<and> init_categories in_session (Some loaded) = loaded
   \<and> set (map fst (categories st)) \<subseteq> set (map fst (categories (add_category name st)))
   \<and> map fst (categories (snd (add_keyword_to_category category details st)))
        = map fst (categories st)
   \<and> set (map Category (categorize_transactions cats df))
        \<subseteq> insert ''Uncategorized'' (set (map fst cats))
   \<and> (''Uncategorized'' \<in> set (map fst cats) \<longrightarrow>
        set (map Category (categorize_transactions cats df)) \<subseteq> set (map fst cats))"
proof -
  have "''Uncategorized'' \<in> set (map fst DEFAULT_CATEGORIES)"
    by (simp add: DEFAULT_CATEGORIES_def)
  moreover have "init_categories None None = DEFAULT_CATEGORIES"
    by (simp add: init_categories_def)
  moreover have "init_categories in_session (Some loaded) = loaded"
    by (simp add: init_categories_def)
  moreover have "''Uncategorized'' \<in> set (map fst cats) \<longrightarrow>
        set (map Category (categorize_transactions cats df)) \<subseteq> set (map fst cats)"
  proof
    assume "''Uncategorized'' \<in> set (map fst cats)"
    then have "insert ''Uncategorized'' (set (map fst cats)) = set (map fst cats)"
      by (rule insert_absorb)
    then show "set (map Category (categorize_transactions cats df)) \<subseteq> set (map fst cats)"
      using categories_after_categorize [of cats df] by simp
  qed
  ultimately show ?thesis
    using keys_add_category keys_add_keyword categories_after_categorize by blast
qed

theorem uncategorized_key_witness:
  "''Uncategorized'' \<in> set (map fst DEFAULT_CATEGORIES)
   \<and> set (map Category (categorize_transactions DEFAULT_CATEGORIES [rent_row]))
        \<subseteq> set (map fst DEFAULT_CATEGORIES)"
  using uncategorized_key [of None "[]" initial_session "[]" "[]" "[]" DEFAULT_CATEGORIES "[rent_row]"]
  by blast

lemma clean_RENT: "clean_transaction_details ''RENT'' = ''RENT''"
  by code_simp

lemma TESCO_no_match_RENT: "\<not> keyword_matches [''TESCO''] ''RENT''"
  by (simp add: keyword_matches_def clean_RENT upper_def upper_char_def)

text \<open>
  C6 as the specification states it fails for a store loaded from a file that lacks the
  key: the key is then absent, and a row without a match gets a category that is no key.
\<close>

theorem uncategorized_key_counterexample:
  "''Uncategorized'' \<notin> set (map fst (init_categories None (Some [(''Food'', [''TESCO''])])))
   \<and> \<not> set (map Category (categorize_transactions
                              (init_categories None (Some [(''Food'', [''TESCO''])])) [rent_row]))
         \<subseteq> set (map fst (init_categories None (Some [(''Food'', [''TESCO''])])))"
  by (simp add: init_categories_def categorize_transactions_def categorize_step_def
        assign_category_def rent_row_def TESCO_no_match_RENT)

section \<open>The normalizer: trailing codes\<close>

lemma startswith_iff: "startswith s p \<longleftrightarrow> (\<exists>r. s = p @ r)"
  by (induction s p rule: startswith.induct) auto

lemma endswith_iff: "endswith s sfx \<longleftrightarrow> (\<exists>r. s = r @ sfx)"
proof
  assume "endswith s sfx"
  then obtain r where "rev s = rev sfx @ r"
    by (auto simp: endswith_def startswith_iff)
  then have "s = rev r @ sfx"
    by (metis rev_append rev_rev_ident)
  then show "\<exists>r. s = r @ sfx" ..
next
  assume "\<exists>r. s = r @ sfx"
  then show "endswith s sfx"
    by (auto simp: endswith_def startswith_iff)
qed

lemma strip_suffix_cases:
  "(endswith s sfx \<and> s = strip_suffix s sfx @ sfx)
   \<or> (\<not> endswith s sfx \<and> strip_suffix s sfx = s)"
  by (auto simp: strip_suffix_def endswith_iff)

lemma foldl_strip_suffix_exact:
  assumes "distinct sfxs"
  shows "\<exists>stripped. subseq stripped sfxs
       \<and> s = foldl strip_suffix s sfxs @ concat (rev stripped)
       \<and> (\<forall>pre sfx post. sfxs = pre @ sfx # post \<longrightarrow>
            (sfx \<in> set stripped \<longleftrightarrow>
             endswith (foldl strip_suffix s sfxs
                        @ concat (rev (filter (\<lambda>c. c \<in> set (sfx # post)) stripped))) sfx))"
  using assms
proof (induction sfxs arbitrary: s)
  case Nil
  have "subseq [] ([] :: string list) \<and> s = foldl strip_suffix s [] @ concat (rev [])
      \<and> (\<forall>pre sfx post. ([] :: string list) = pre @ sfx # post \<longrightarrow>
            (sfx \<in> set [] \<longleftrightarrow>
             endswith (foldl strip_suffix s []
                        @ concat (rev (filter (\<lambda>c. c \<in> set (sfx # post)) []))) sfx))"
    by simp
  then show ?case by blast
next
  case (Cons a rest)
  let ?s' = "strip_suffix s a"
  let ?r = "foldl strip_suffix ?s' rest"
  from Cons.prems have d: "a \<notin> set rest" "distinct rest" by simp_all
  obtain stripped where st: "subseq stripped rest"
      "?s' = ?r @ concat (rev stripped)"
      "\<And>pre sfx post. rest = pre @ sfx # post \<Longrightarrow>
            (sfx \<in> set stripped \<longleftrightarrow>
             endswith (?r @ concat (rev (filter (\<lambda>c. c \<in> set (sfx # post)) stripped))) sfx)"
    using Cons.IH [OF d(2), of ?s'] by blast
  have sub: "set stripped \<subseteq> set rest"
  proof
    fix x assume "x \<in> set stripped"
    with st(1) show "x \<in> set rest" by (auto elim: list_emb_set)
  qed
  have a_notin: "a \<notin> set stripped" using sub d(1) by blast
  have all_in: "filter (\<lambda>c. c \<in> set (a # rest)) stripped = stripped"
    using sub by (auto simp: filter_id_conv)
  have r: "foldl strip_suffix s (a # rest) = ?r" by simp
  show ?case
  proof (cases "endswith s a")
    case True
    then have sa: "s = ?s' @ a"
      using strip_suffix_cases [of s a] by blast
    have "?s' @ a = (?r @ concat (rev stripped)) @ a"
      by (rule arg_cong [where f = "\<lambda>x. x @ a", OF st(2)])
    with sa have "s = (?r @ concat (rev stripped)) @ a" by (rule trans)
    then have dec: "s = ?r @ concat (rev (a # stripped))"
      by simp
    have mem: "sfx \<in> set (a # stripped) \<longleftrightarrow>
             endswith (?r @ concat (rev (filter (\<lambda>c. c \<in> set (sfx # post)) (a # stripped)))) sfx"
      if sp: "a # rest = pre @ sfx # post" for pre sfx post
    proof (cases pre)
      case Nil
      with sp have e: "sfx = a" "post = rest" by simp_all
      have "filter (\<lambda>c. c \<in> set (a # rest)) (a # stripped) = a # stripped"
        using all_in by simp
      then show ?thesis using e dec True by simp
    next
      case (Cons b pre')
      with sp have e: "b = a" "rest = pre' @ sfx # post" by simp_all
      then have "a \<notin> set (sfx # post)" using d(1) by auto
      then have "filter (\<lambda>c. c \<in> set (sfx # post)) (a # stripped)
                 = filter (\<lambda>c. c \<in> set (sfx # post)) stripped" by simp
      moreover have "sfx \<noteq> a" using e(2) d(1) by auto
      ultimately show ?thesis using st(3) [OF e(2)] by auto
    qed
    have "subseq (a # stripped) (a # rest)" using st(1) by simp
    with dec mem show ?thesis
      unfolding r by (intro exI [of _ "a # stripped"] conjI allI impI)
  next
    case False
    then have sa: "?s' = s"
      using strip_suffix_cases [of s a] by blast
    from sa [symmetric] st(2) have dec: "s = ?r @ concat (rev stripped)"
      by (rule trans)
    have mem: "sfx \<in> set stripped \<longleftrightarrow>
             endswith (?r @ concat (rev (filter (\<lambda>c. c \<in> set (sfx # post)) stripped))) sfx"
      if sp: "a # rest = pre @ sfx # post" for pre sfx post
    proof (cases pre)
      case Nil
      with sp have e: "sfx = a" "post = rest" by simp_all
      show ?thesis using e all_in dec [symmetric] False a_notin by simp
    next
      case (Cons b pre')
      with sp have e: "b = a" "rest = pre' @ sfx # post" by simp_all
      show ?thesis using st(3) [OF e(2)] .
    qed
    have "subseq stripped (a # rest)" using st(1) by (rule list_emb_Cons)
    with dec mem show ?thesis
      unfolding r by (intro exI [of _ stripped] conjI allI impI)
  qed
qed


lemma length_foldl_strip_suffix: "length (foldl strip_suffix s sfxs) \<le> length s"
proof (induction sfxs arbitrary: s)
  case Nil
  show ?case by simp
next
  case (Cons a rest)
  have "length (strip_suffix s a) \<le> length s"
    by (simp add: strip_suffix_def)
  with Cons [of "strip_suffix s a"] show ?case by simp
qed

lemma foldl_strip_suffix_shorter:
  assumes "sfx \<in> set sfxs" and "[] \<notin> set sfxs" and "endswith s sfx"
  shows "length (foldl strip_suffix s sfxs) < length s"
  using assms
proof (induction sfxs arbitrary: s)
  case Nil
  then show ?case by simp
next
  case (Cons a rest)
  show ?case
  proof (cases "endswith s a")
    case True
    then have "s = strip_suffix s a @ a"
      using strip_suffix_cases [of s a] by blast
    then have "length s = length (strip_suffix s a) + length a"
      by (metis length_append)
    moreover have "a \<noteq> []" using Cons.prems(2) by auto
    ultimately have "length (strip_suffix s a) < length s" by simp
    with length_foldl_strip_suffix [of "strip_suffix s a" rest] show ?thesis by simp
  next
    case False
    then have e: "strip_suffix s a = s"
      using strip_suffix_cases [of s a] by blast
    from False Cons.prems(1,3) have "sfx \<in> set rest" by auto
    with Cons.IH [of s] Cons.prems(2,3) e show ?thesis by simp
  qed
qed

lemma distinct_suffixes_to_remove: "distinct suffixes_to_remove"
  by (simp add: suffixes_to_remove_def)

lemma strip_A_CPM_FT: "strip_suffixes ''A CPM FT'' = ''A CPM''"
  by code_simp

lemma clean_TESCO_STORES_DDR: "clean_transaction_details ''TESCO STORES DDR'' = ''TESCO STORES''"
  by code_simp

text \<open>
  C4, as the code has it. The loop tests the seven codes once each, in the order of the
  list, against the end of what is left of the string, and strips every code that stands
  there. So the input is the result followed by the stripped codes in the reverse of the
  list order, each code of the list at most once; and a code of the list is among the
  stripped ones exactly when the string ended with it at its turn, that is, when the
  result followed by the codes stripped at that turn or later ends with it. In particular
  a string that ends with a code of the list is never returned as it is. The run of
  stripped codes may be empty and may hold several codes: \<open>A CPM FT\<close> loses only
  \<open>FT\<close>, since \<open>CPM\<close> is tested before \<open>FT\<close> is gone. The example of the
  specification holds.
\<close>

theorem strip_suffixes_in_list_order:
  "(\<exists>stripped. subseq stripped suffixes_to_remove
       \<and> details = strip_suffixes details @ concat (rev stripped)
       \<and> (\<forall>pre sfx post. suffixes_to_remove = pre @ sfx # post \<longrightarrow>
            (sfx \<in> set stripped \<longleftrightarrow>
             endswith (strip_suffixes details
                        @ concat (rev (filter (\<lambda>c. c \<in> set (sfx # post)) stripped))) sfx)))
   \<and> (\<forall>sfx\<in>set suffixes_to_remove.
         endswith details sfx \<longrightarrow> length (strip_suffixes details) < length details)
   \<and> clean_transaction_details ''TESCO STORES DDR'' = ''TESCO STORES''
   \<and> strip_suffixes ''A CPM FT'' = ''A CPM''"
proof -
  have "[] \<notin> set suffixes_to_remove"
    by (simp add: suffixes_to_remove_def)
  then have "\<forall>sfx\<in>set suffixes_to_remove.
         endswith details sfx \<longrightarrow> length (strip_suffixes details) < length details"
    unfolding strip_suffixes_def by (blast intro: foldl_strip_suffix_shorter)
  then show ?thesis
    using foldl_strip_suffix_exact [OF distinct_suffixes_to_remove, of details]
      clean_TESCO_STORES_DDR strip_A_CPM_FT
    unfolding strip_suffixes_def by blast
qed

theorem strip_suffixes_in_list_order_witness:
  "'' FT'' \<in> set suffixes_to_remove \<and> endswith ''A CPM FT'' '' FT''
   \<and> length (strip_suffixes ''A CPM FT'') < length ''A CPM FT''"
  using strip_suffixes_in_list_order [of "''A CPM FT''"]
  by (simp add: suffixes_to_remove_def endswith_def)

lemma strip_A_FT_CPM: "strip_suffixes ''A FT CPM'' = ''A''"
  by code_simp

lemma clean_A_FT_CPM: "clean_transaction_details ''A FT CPM'' = ''A''"
  by code_simp

text \<open>
  C4 as the specification states it (at most one code is stripped) fails: a string that
  ends in FT followed by CPM loses both.
\<close>

theorem strip_two_codes_counterexample:
  "strip_suffixes ''A FT CPM'' = ''A'' \<and> clean_transaction_details ''A FT CPM'' = ''A''"
  using strip_A_FT_CPM clean_A_FT_CPM by simp

section \<open>The normalizer applied twice\<close>

lemma split_ws_Nil: "split_ws [] = []"
  by (simp add: split_ws.simps [of "[]"])

lemma split_ws_space: "is_space c \<Longrightarrow> split_ws (c # s) = split_ws s"
  by (simp add: split_ws.simps [of "c # s"] split_ws.simps [of s])

lemma split_ws_word:
  assumes "is_word w" and "rest = [] \<or> is_space (hd rest)"
  shows "split_ws (w @ rest) = w # split_ws rest"
proof -
  from assms(1) obtain c cs where w: "w = c # cs" "\<not> is_space c" "\<forall>x\<in>set cs. \<not> is_space x"
    by (cases w) (auto simp: is_word_def)
  have rest_take: "takeWhile (\<lambda>x. \<not> is_space x) rest = []"
    using assms(2) by (cases rest) auto
  have rest_drop: "dropWhile (\<lambda>x. \<not> is_space x) rest = rest"
    using assms(2) by (cases rest) auto
  have "takeWhile (\<lambda>x. \<not> is_space x) (cs @ rest) = cs"
    using w(3) rest_take by (simp add: takeWhile_append2)
  moreover have "dropWhile (\<lambda>x. \<not> is_space x) (cs @ rest) = rest"
    using w(3) rest_drop by (simp add: dropWhile_append2)
  ultimately show ?thesis
    using w(1,2) by (simp add: split_ws.simps [of "c # cs @ rest"])
qed

lemma split_ws_words: "w \<in> set (split_ws s) \<Longrightarrow> is_word w \<and> set w \<subseteq> set s"
proof (induction s rule: split_ws.induct)
  case (1 s)
  show ?case
  proof (cases "dropWhile is_space s")
    case Nil
    with 1(2) show ?thesis by (simp add: split_ws.simps [of s])
  next
    case (Cons c cs)
    have c: "\<not> is_space c"
      using Cons by (metis hd_dropWhile list.distinct(1) list.sel(1))
    have sub: "set (c # cs) \<subseteq> set s"
      using Cons set_dropWhileD by (metis subsetI)
    from 1(2) Cons have "w = c # takeWhile (\<lambda>x. \<not> is_space x) cs
        \<or> w \<in> set (split_ws (dropWhile (\<lambda>x. \<not> is_space x) cs))"
      by (simp add: split_ws.simps [of s])
    then show ?thesis
    proof
      assume w: "w = c # takeWhile (\<lambda>x. \<not> is_space x) cs"
      have "\<forall>x\<in>set (takeWhile (\<lambda>x. \<not> is_space x) cs). \<not> is_space x"
        by (auto dest: set_takeWhileD)
      moreover have "set (takeWhile (\<lambda>x. \<not> is_space x) cs) \<subseteq> set cs"
        by (auto dest: set_takeWhileD)
      ultimately show ?thesis using w c sub by (auto simp: is_word_def)
    next
      assume "w \<in> set (split_ws (dropWhile (\<lambda>x. \<not> is_space x) cs))"
      then have "is_word w \<and> set w \<subseteq> set (dropWhile (\<lambda>x. \<not> is_space x) cs)"
        using 1(1) [OF Cons] by blast
      moreover have "set (dropWhile (\<lambda>x. \<not> is_space x) cs) \<subseteq> set cs"
        by (auto dest: set_dropWhileD)
      ultimately show ?thesis using sub by auto
    qed
  qed
qed

lemma join_with_hd:
  "ws \<noteq> [] \<Longrightarrow> \<forall>w\<in>set ws. is_word w \<Longrightarrow>
     join_with '' '' ws \<noteq> [] \<and> hd (join_with '' '' ws) = hd (hd ws)
     \<and> last (join_with '' '' ws) = last (last ws)"
  by (induction "'' ''" ws rule: join_with.induct) (auto simp: is_word_def)

lemma split_ws_join_with:
  "\<forall>w\<in>set ws. is_word w \<Longrightarrow> split_ws (join_with '' '' ws) = ws"
proof (induction "'' ''" ws rule: join_with.induct)
  case 1
  show ?case by (simp add: split_ws_Nil)
next
  case (2 w)
  then show ?case using split_ws_word [of w "[]"] by (simp add: split_ws_Nil)
next
  case (3 w v ws)
  have sp: "is_space CHR '' ''" by (simp add: is_space_def)
  have "split_ws (w @ '' '' @ join_with '' '' (v # ws))
          = w # split_ws ('' '' @ join_with '' '' (v # ws))"
    using 3(2) sp by (intro split_ws_word) auto
  also have "split_ws ('' '' @ join_with '' '' (v # ws)) = split_ws (join_with '' '' (v # ws))"
    using sp by (simp add: split_ws_space)
  also have "\<dots> = v # ws" using 3 by simp
  finally show ?case by simp
qed

lemma strip_id: "s = [] \<or> (\<not> is_space (hd s) \<and> \<not> is_space (last s)) \<Longrightarrow> strip s = s"
proof (cases s)
  case Nil
  then show ?thesis by (simp add: strip_def)
next
  case (Cons c cs)
  assume "s = [] \<or> (\<not> is_space (hd s) \<and> \<not> is_space (last s))"
  with Cons have h: "\<not> is_space (hd s)" "\<not> is_space (last s)" by auto
  have "dropWhile is_space s = s"
    using h(1) by (simp add: dropWhile_eq_self_iff)
  moreover have "dropWhile is_space (rev s) = rev s"
  proof -
    have "hd (rev s) = last s" using Cons by (simp add: hd_rev)
    then show ?thesis using h(2) by (simp only: dropWhile_eq_self_iff) simp
  qed
  ultimately show ?thesis by (simp add: strip_def)
qed

lemma strip_join_with:
  assumes "\<forall>w\<in>set ws. is_word w"
  shows "strip (join_with '' '' ws) = join_with '' '' ws"
proof (cases ws)
  case Nil
  then show ?thesis by (simp add: strip_def)
next
  case (Cons w ws')
  then have ne: "ws \<noteq> []" by simp
  have hw: "is_word (hd ws)" "is_word (last ws)"
    using assms ne by auto
  have "\<not> is_space (hd (hd ws))" "\<not> is_space (last (last ws))"
    using hw by (auto simp: is_word_def)
  then show ?thesis
    using join_with_hd [OF ne assms] by (intro strip_id) simp
qed


lemma upper_char_idem: "upper_char (upper_char c) = upper_char c"
  by (simp add: upper_char_def)

lemma upper_char_blank: "upper_char CHR '' '' = CHR '' ''"
  by (simp add: upper_char_def)

lemma upper_fixed: "\<forall>c\<in>set s. upper_char c = c \<Longrightarrow> upper s = s"
  by (simp add: upper_def map_idI)

lemma set_strip: "set (strip s) \<subseteq> set s"
proof -
  have "set (strip s) = set (dropWhile is_space (rev (dropWhile is_space s)))"
    by (simp add: strip_def)
  also have "\<dots> \<subseteq> set (rev (dropWhile is_space s))"
    by (auto dest: set_dropWhileD)
  also have "\<dots> \<subseteq> set s"
    by (auto dest: set_dropWhileD)
  finally show ?thesis .
qed

lemma set_strip_suffix: "set (strip_suffix s sfx) \<subseteq> set s"
  by (auto simp: strip_suffix_def dest: in_set_takeD)

lemma set_foldl_strip_suffix: "set (foldl strip_suffix s sfxs) \<subseteq> set s"
proof (induction sfxs arbitrary: s)
  case Nil
  show ?case by simp
next
  case (Cons sfx sfxs)
  have "set (foldl strip_suffix (strip_suffix s sfx) sfxs) \<subseteq> set (strip_suffix s sfx)"
    by (rule Cons.IH)
  then show ?case using set_strip_suffix [of s sfx] by auto
qed

lemma set_match_spaces: "match_spaces s = Some r \<Longrightarrow> set r \<subseteq> set s"
  by (cases s) (auto simp: match_spaces_def split: if_splits dest: set_dropWhileD)

lemma set_match_lit: "match_lit p s = Some r \<Longrightarrow> set r \<subseteq> set s"
  by (auto simp: match_lit_def split: if_splits dest: in_set_dropD)

lemma set_match_class: "match_class P n s = Some r \<Longrightarrow> set r \<subseteq> set s"
  by (auto simp: match_class_def split: if_splits dest: in_set_dropD)

lemma set_match_date:
  assumes "match_date s = Some r"
  shows "set r \<subseteq> set s"
proof -
  from assms obtain s1 s2 s3 s4 s5 where
    m: "match_spaces s = Some s1" "match_lit ''ON'' s1 = Some s2" "match_spaces s2 = Some s3"
       "match_class is_digit 2 s3 = Some s4" "match_spaces s4 = Some s5"
       "match_class is_upper_AZ 3 s5 = Some r"
    by (auto simp: match_date_def Option.bind_eq_Some_conv)
  have "set s1 \<subseteq> set s" using m(1) by (rule set_match_spaces)
  moreover have "set s2 \<subseteq> set s1" using m(2) by (rule set_match_lit)
  moreover have "set s3 \<subseteq> set s2" using m(3) by (rule set_match_spaces)
  moreover have "set s4 \<subseteq> set s3" using m(4) by (rule set_match_class)
  moreover have "set s5 \<subseteq> set s4" using m(5) by (rule set_match_spaces)
  moreover have "set r \<subseteq> set s5" using m(6) by (rule set_match_class)
  ultimately show ?thesis by blast
qed

lemma set_remove_dates: "set (remove_dates s) \<subseteq> set s"
proof (induction s rule: remove_dates.induct)
  case 1
  show ?case by simp
next
  case (2 c cs)
  show ?case
  proof (cases "match_date (c # cs)")
    case None
    then show ?thesis using 2(1) [OF None] by auto
  next
    case (Some rest)
    then have "set (remove_dates rest) \<subseteq> set rest" using 2(2) [OF Some] by simp
    moreover have "set rest \<subseteq> set (c # cs)" using Some by (rule set_match_date)
    ultimately show ?thesis using Some by auto
  qed
qed

lemma set_join_with:
  "set (join_with '' '' ws) \<subseteq> insert CHR '' '' (\<Union>w\<in>set ws. set w)"
  by (induction "'' ''" ws rule: join_with.induct) auto

lemma clean_is_join:
  "\<exists>ws. (\<forall>w\<in>set ws. is_word w) \<and> clean_transaction_details x = join_with '' '' ws
        \<and> (\<forall>c\<in>set (clean_transaction_details x). upper_char c = c)"
proof -
  define z where "z = remove_dates (strip_suffixes (strip (upper x)))"
  define ws where "ws = split_ws z"
  have words: "\<forall>w\<in>set ws. is_word w \<and> set w \<subseteq> set z"
    using split_ws_words by (simp add: ws_def)
  have "set z \<subseteq> set (upper x)"
    using set_remove_dates [of "strip_suffixes (strip (upper x))"]
          set_foldl_strip_suffix [of "strip (upper x)" suffixes_to_remove]
          set_strip [of "upper x"]
    by (auto simp: z_def strip_suffixes_def)
  then have zfix: "\<forall>c\<in>set z. upper_char c = c"
    by (auto simp: upper_def upper_char_idem)
  have eq: "clean_transaction_details x = join_with '' '' ws"
    by (simp add: clean_transaction_details_def ws_def z_def)
  have "\<forall>c\<in>set (join_with '' '' ws). upper_char c = c"
  proof
    fix c assume "c \<in> set (join_with '' '' ws)"
    then have "c = CHR '' '' \<or> (\<exists>w\<in>set ws. c \<in> set w)"
      using set_join_with [of ws] by auto
    then show "upper_char c = c"
      using words zfix upper_char_blank by auto
  qed
  then show ?thesis using words eq by auto
qed

text \<open>
  C5, as the code has it. The output of the normalizer is upper case, trimmed and has single
  blanks between its words, so a second pass can change it only in the loop over the codes
  or in the removal of dates: the normalizer maps its output to itself whenever the output
  ends in none of the codes and holds no date fragment, that is, whenever these two steps
  leave the output as it is.
\<close>

theorem clean_idempotent_when_stable:
  assumes "strip_suffixes (clean_transaction_details x) = clean_transaction_details x"
    and "remove_dates (clean_transaction_details x) = clean_transaction_details x"
  shows "clean_transaction_details (clean_transaction_details x) = clean_transaction_details x"
proof -
  obtain ws where ws: "\<forall>w\<in>set ws. is_word w" "clean_transaction_details x = join_with '' '' ws"
      "\<forall>c\<in>set (clean_transaction_details x). upper_char c = c"
    using clean_is_join by blast
  let ?y = "clean_transaction_details x"
  have "upper ?y = ?y" using ws(3) by (rule upper_fixed)
  moreover have "strip ?y = ?y" using ws(1,2) by (simp add: strip_join_with)
  moreover have "join_with '' '' (split_ws ?y) = ?y"
    using ws(1,2) by (simp add: split_ws_join_with)
  ultimately show ?thesis
    using assms by (simp add: clean_transaction_details_def [of ?y])
qed

lemma clean_tesco_lower: "clean_transaction_details ''tesco stores ddr'' = ''TESCO STORES''"
  by code_simp

lemma strip_suffixes_TESCO_STORES: "strip_suffixes ''TESCO STORES'' = ''TESCO STORES''"
  by code_simp

lemma remove_dates_TESCO_STORES: "remove_dates ''TESCO STORES'' = ''TESCO STORES''"
  by code_simp

theorem clean_idempotent_when_stable_witness:
  "strip_suffixes (clean_transaction_details ''tesco stores ddr'')
     = clean_transaction_details ''tesco stores ddr''
   \<and> remove_dates (clean_transaction_details ''tesco stores ddr'')
     = clean_transaction_details ''tesco stores ddr''
   \<and> clean_transaction_details (clean_transaction_details ''tesco stores ddr'')
     = clean_transaction_details ''tesco stores ddr''"
proof -
  have a: "strip_suffixes (clean_transaction_details ''tesco stores ddr'')
             = clean_transaction_details ''tesco stores ddr''"
    by (simp add: clean_tesco_lower strip_suffixes_TESCO_STORES)
  have b: "remove_dates (clean_transaction_details ''tesco stores ddr'')
             = clean_transaction_details ''tesco stores ddr''"
    by (simp only: clean_tesco_lower remove_dates_TESCO_STORES)
  show ?thesis using a b clean_idempotent_when_stable [OF a b] by blast
qed

lemma clean_A_CPM_FT: "clean_transaction_details ''A CPM FT'' = ''A CPM''"
  by code_simp

lemma clean_A_CPM: "clean_transaction_details ''A CPM'' = ''A''"
  by code_simp

text \<open>
  C5 as the specification states it (for all strings) fails: the first pass strips FT and
  uncovers CPM, which the second pass strips.
\<close>

theorem clean_not_idempotent_counterexample:
  "clean_transaction_details (clean_transaction_details ''A CPM FT'')
     \<noteq> clean_transaction_details ''A CPM FT''"
  by (simp add: clean_A_CPM_FT clean_A_CPM)

section \<open>The transaction loader: the direction of a row\<close>

lemma make_rows_direction:
  "\<forall>row\<in>set (make_rows dates details amounts (map direction amounts)).
     Debit_Credit row = direction (Amount row)"
proof -
  have "\<forall>p\<in>set (zip amounts (map direction amounts)). snd p = direction (fst p)"
    by (auto simp: zip_map2 zip_same_conv_map)
  then have "\<forall>q\<in>set (zip dates (zip details (zip amounts (map direction amounts)))).
      snd (snd (snd q)) = direction (fst (snd (snd q)))"
    by (metis in_set_zipE prod.collapse)
  then show ?thesis
    by (auto simp: make_rows_def)
qed

lemma categorize_keeps_direction:
  assumes "\<forall>row\<in>set df. Debit_Credit row = direction (Amount row)"
  shows "\<forall>row\<in>set (categorize_transactions cats df). Debit_Credit row = direction (Amount row)"
  using assms
  by (auto simp: categorize_transactions_def foldl_categorize_step final_category_def
           split: list.splits)

lemma load_frame_Inr:
  "load_frame to_float to_datetime cats raw = Inr df \<Longrightarrow>
     \<exists>dates details amounts.
       df = categorize_transactions cats (make_rows dates details amounts (map direction amounts))"
  by (auto simp: load_frame_def bind_err_def Let_def split: sum.splits if_splits)

text \<open>
  C8. In every row of a table that \<open>load_transactions\<close> returns, the column
  \<open>Debit/Credit\<close> is \<open>Credit\<close> if and only if the amount is greater than 0, and
  \<open>Debit\<close> otherwise; an amount of 0 gives \<open>Debit\<close>. This holds for every file, every
  store and whatever the pandas conversions return.
\<close>

theorem loaded_direction:
  assumes "load_transactions read_csv to_float to_datetime cats file = (shown, Some df)"
  shows "\<forall>row\<in>set df.
           (Debit_Credit row = ''Credit'' \<longleftrightarrow> Amount row > 0)
         \<and> (Debit_Credit row = ''Debit'' \<longleftrightarrow> \<not> Amount row > 0)
         \<and> (Amount row = 0 \<longrightarrow> Debit_Credit row = ''Debit'')"
proof -
  from assms have "load_body read_csv to_float to_datetime cats file = Inr df"
    by (auto simp: load_transactions_def split: sum.splits)
  then obtain raw where "load_frame to_float to_datetime cats raw = Inr df"
    by (auto simp: load_body_def bind_err_def split: sum.splits)
  then obtain dates details amounts where
    "df = categorize_transactions cats (make_rows dates details amounts (map direction amounts))"
    using load_frame_Inr by blast
  then have "\<forall>row\<in>set df. Debit_Credit row = direction (Amount row)"
    using categorize_keeps_direction [OF make_rows_direction] by simp
  then show ?thesis by (auto simp: direction_def)
qed

lemma clean_TESCO_STORES_1234_CLP:
  "clean_transaction_details ''TESCO STORES 1234 CLP'' = ''TESCO STORES 1234''"
  by code_simp

lemma clean_REFUND: "clean_transaction_details ''REFUND'' = ''REFUND''"
  by code_simp

lemma clean_PAYMENT: "clean_transaction_details ''PAYMENT'' = ''PAYMENT''"
  by code_simp

lemma example_matches:
  "keyword_matches [''TESCO''] ''TESCO STORES 1234 CLP''"
  "\<not> keyword_matches [''TESCO''] ''REFUND''"
  "\<not> keyword_matches [''TESCO''] ''PAYMENT''"
  "\<not> keyword_matches [''REFUND''] ''TESCO STORES 1234 CLP''"
  "keyword_matches [''REFUND''] ''REFUND''"
  "\<not> keyword_matches [''REFUND''] ''PAYMENT''"
  by (simp_all add: keyword_matches_def clean_TESCO_STORES_1234_CLP clean_REFUND clean_PAYMENT
        upper_def upper_char_def)

lemma strip_example_columns:
  "strip_columns example_frame =
     [(''Date'', [''15/03/2024'', ''16/03/2024'', ''17/03/2024'']),
      (''Details'', [''TESCO STORES 1234 CLP'', ''REFUND'', ''PAYMENT'']),
      (''Amount'', [''-23.50'', ''5.00'', ''0''])]"
  by (simp add: strip_columns_def example_frame_def strip_def is_space_def)

lemma example_load_frame:
  "load_frame example_to_float example_to_datetime example_store example_frame
     = Inr example_loaded"
  by (simp add: load_frame_def strip_example_columns is_barclays_def bind_err_def column_def
        example_to_float_def example_to_datetime_def required_columns_def direction_def
        make_rows_def categorize_transactions_def categorize_step_def assign_category_def
        example_store_def example_matches example_loaded_def)

lemma example_load:
  "load_transactions Inr example_to_float example_to_datetime example_store example_frame
     = ([], Some example_loaded)"
  by (simp add: load_transactions_def load_body_def bind_err_def example_load_frame)

theorem loaded_direction_witness:
  "load_transactions Inr example_to_float example_to_datetime example_store example_frame
     = ([], Some example_loaded)
   \<and> example_loaded ! 1 \<in> set example_loaded
   \<and> Amount (example_loaded ! 1) > 0 \<and> Debit_Credit (example_loaded ! 1) = ''Credit''
   \<and> example_loaded ! 2 \<in> set example_loaded
   \<and> Amount (example_loaded ! 2) = 0 \<and> Debit_Credit (example_loaded ! 2) = ''Debit''"
proof -
  note rows = loaded_direction [OF example_load]
  have m1: "example_loaded ! 1 \<in> set example_loaded"
    and a1: "Amount (example_loaded ! 1) > 0"
    and m2: "example_loaded ! 2 \<in> set example_loaded"
    and a2: "Amount (example_loaded ! 2) = 0"
    by (simp_all add: example_loaded_def)
  from rows m1 a1 have c1: "Debit_Credit (example_loaded ! 1) = ''Credit''" by blast
  from rows m2 a2 have c2: "Debit_Credit (example_loaded ! 2) = ''Debit''" by blast
  from example_load m1 a1 c1 m2 a2 c2 show ?thesis by (intro conjI)
qed

section \<open>The transaction loader: failures\<close>

lemma traverse_Inr: "traverse f xs = Inr ys \<Longrightarrow> \<forall>x\<in>set xs. \<not> isl (f x)"
  by (induction xs arbitrary: ys) (auto simp: bind_err_def split: sum.splits)

lemma select_three:
  assumes "select_columns df [''Date'', ''Amount'', ''Memo''] = Inr sel"
  shows "\<exists>d a m. map_of df ''Date'' = Some d \<and> map_of df ''Amount'' = Some a
           \<and> sel = [(''Date'', d), (''Amount'', a), (''Memo'', m)]"
  using assms
  by (auto simp: select_columns_def column_def bind_err_def split: sum.splits option.splits)

lemma load_frame_Inr_columns:
  assumes "load_frame to_float to_datetime cats raw = Inr df"
  shows "\<exists>a d. map_of (strip_columns raw) ''Amount'' = Some a
              \<and> map_of (strip_columns raw) ''Date'' = Some d
              \<and> (\<forall>c\<in>set a. \<not> isl (to_float c))
              \<and> (\<forall>c\<in>set d. \<not> isl (to_datetime c))
              \<and> (is_barclays (strip_columns raw)
                   \<or> ''Details'' \<in> set (map fst (strip_columns raw)))"
proof (cases "is_barclays (strip_columns raw)")
  case True
  with assms obtain sel where sel:
      "select_columns (strip_columns raw) [''Date'', ''Amount'', ''Memo''] = Inr sel"
    by (auto simp: load_frame_def Let_def bind_err_def split: sum.splits)
  then obtain d a m where dam: "map_of (strip_columns raw) ''Date'' = Some d"
      "map_of (strip_columns raw) ''Amount'' = Some a"
      "sel = [(''Date'', d), (''Amount'', a), (''Memo'', m)]"
    using select_three by blast
  have ren: "rename_column ''Memo'' ''Details'' sel
               = [(''Date'', d), (''Amount'', a), (''Details'', m)]"
    by (simp add: rename_column_def dam(3))
  from assms True sel ren obtain amounts dates where
      tr: "traverse to_float a = Inr amounts" "traverse to_datetime d = Inr dates"
    by (auto simp: load_frame_def Let_def bind_err_def column_def split: sum.splits if_splits)
  show ?thesis
    using dam(1,2) True traverse_Inr [OF tr(1)] traverse_Inr [OF tr(2)] by simp
next
  case False
  with assms obtain a d amounts dates where
      ok: "map_of (strip_columns raw) ''Amount'' = Some a" "traverse to_float a = Inr amounts"
      "map_of (strip_columns raw) ''Date'' = Some d" "traverse to_datetime d = Inr dates"
      "''Details'' \<in> set (map fst (strip_columns raw))"
    by (auto simp: load_frame_def Let_def bind_err_def column_def required_columns_def
             split: sum.splits if_splits option.splits)
  show ?thesis
    using ok(1,3,5) traverse_Inr [OF ok(2)] traverse_Inr [OF ok(4)] by simp
qed

text \<open>
  C7. Whatever the body of \<open>load_transactions\<close> raises is caught by the function: it
  shows one message, \<open>Error processing file:\<close> followed by the text of the exception,
  and returns \<open>None\<close>; and whenever it returns \<open>None\<close>, \<open>main\<close> leaves the session as
  it was. The body does raise in each of the failures the specification names: when
  \<open>read_csv\<close> rejects the file, when the column \<open>Amount\<close> or \<open>Date\<close> is missing,
  when the column \<open>Details\<close> is missing from a file that is not in the Barclays format,
  when a cell of \<open>Amount\<close> is no number and when a cell of \<open>Date\<close> is no date.
\<close>

theorem load_failure_caught:
  "((isl (read_csv file)
     \<or> (\<exists>raw. read_csv file = Inr raw \<and>
          (''Amount'' \<notin> set (map fst (strip_columns raw))
           \<or> ''Date'' \<notin> set (map fst (strip_columns raw))
           \<or> (\<not> is_barclays (strip_columns raw)
                \<and> ''Details'' \<notin> set (map fst (strip_columns raw)))
           \<or> (\<exists>cells c. map_of (strip_columns raw) ''Amount'' = Some cells
                  \<and> c \<in> set cells \<and> isl (to_float c))
           \<or> (\<exists>cells c. map_of (strip_columns raw) ''Date'' = Some cells
                  \<and> c \<in> set cells \<and> isl (to_datetime c)))))
    \<longrightarrow> isl (load_body read_csv to_float to_datetime (categories st) file))
   \<and> (\<forall>e. load_body read_csv to_float to_datetime (categories st) file = Inl e \<longrightarrow>
          load_transactions read_csv to_float to_datetime (categories st) file
            = ([''Error processing file: '' @ error_text e], None)
        \<and> main_upload read_csv to_float to_datetime file st
            = ([''Error processing file: '' @ error_text e], st))
   \<and> (\<forall>shown. load_transactions read_csv to_float to_datetime (categories st) file
                  = (shown, None) \<longrightarrow>
          main_upload read_csv to_float to_datetime file st = (shown, st))"
proof (intro conjI impI allI)
  assume f: "isl (read_csv file)
     \<or> (\<exists>raw. read_csv file = Inr raw \<and>
          (''Amount'' \<notin> set (map fst (strip_columns raw))
           \<or> ''Date'' \<notin> set (map fst (strip_columns raw))
           \<or> (\<not> is_barclays (strip_columns raw)
                \<and> ''Details'' \<notin> set (map fst (strip_columns raw)))
           \<or> (\<exists>cells c. map_of (strip_columns raw) ''Amount'' = Some cells
                  \<and> c \<in> set cells \<and> isl (to_float c))
           \<or> (\<exists>cells c. map_of (strip_columns raw) ''Date'' = Some cells
                  \<and> c \<in> set cells \<and> isl (to_datetime c))))"
  show "isl (load_body read_csv to_float to_datetime (categories st) file)"
  proof (rule ccontr)
    assume "\<not> isl (load_body read_csv to_float to_datetime (categories st) file)"
    then obtain df where df: "load_body read_csv to_float to_datetime (categories st) file = Inr df"
      by (cases "load_body read_csv to_float to_datetime (categories st) file") auto
    then obtain raw where raw: "read_csv file = Inr raw"
        "load_frame to_float to_datetime (categories st) raw = Inr df"
      by (auto simp: load_body_def bind_err_def split: sum.splits)
    from load_frame_Inr_columns [OF raw(2)] obtain a d where ok:
        "map_of (strip_columns raw) ''Amount'' = Some a"
        "map_of (strip_columns raw) ''Date'' = Some d"
        "\<forall>c\<in>set a. \<not> isl (to_float c)" "\<forall>c\<in>set d. \<not> isl (to_datetime c)"
        "is_barclays (strip_columns raw) \<or> ''Details'' \<in> set (map fst (strip_columns raw))"
      by blast
    have "''Amount'' \<in> set (map fst (strip_columns raw))"
         "''Date'' \<in> set (map fst (strip_columns raw))"
      using ok(1,2) by (auto dest: map_of_SomeD intro: rev_image_eqI)
    with f raw(1) ok show False by auto
  qed
next
  fix e
  assume "load_body read_csv to_float to_datetime (categories st) file = Inl e"
  then show "load_transactions read_csv to_float to_datetime (categories st) file
            = ([''Error processing file: '' @ error_text e], None)"
    by (simp add: load_transactions_def)
next
  fix e
  assume "load_body read_csv to_float to_datetime (categories st) file = Inl e"
  then show "main_upload read_csv to_float to_datetime file st
            = ([''Error processing file: '' @ error_text e], st)"
    by (simp add: main_upload_def load_transactions_def)
next
  fix shown
  assume "load_transactions read_csv to_float to_datetime (categories st) file = (shown, None)"
  then show "main_upload read_csv to_float to_datetime file st = (shown, st)"
    by (simp add: main_upload_def)
qed


lemma bad_amount_fails:
  "map_of (strip_columns bad_amount_frame) ''Amount'' = Some [''abc'']
   \<and> ''abc'' \<in> set [''abc''] \<and> isl (example_to_float ''abc'')"
  by (simp add: strip_columns_def bad_amount_frame_def strip_def is_space_def
        example_to_float_def)

lemma bad_amount_body:
  "load_body Inr example_to_float example_to_datetime cats bad_amount_frame
     = Inl (ValueError (''could not convert string to float: '' @ [CHR 0x27] @ ''abc'' @ [CHR 0x27]))"
  by (simp add: load_body_def load_frame_def bind_err_def column_def is_barclays_def
        strip_columns_def bad_amount_frame_def strip_def is_space_def example_to_float_def)

theorem load_failure_caught_witness:
  "map_of (strip_columns bad_amount_frame) ''Amount'' = Some [''abc'']
   \<and> ''abc'' \<in> set [''abc''] \<and> isl (example_to_float ''abc'')
   \<and> isl (load_body Inr example_to_float example_to_datetime (categories initial_session)
             bad_amount_frame)
   \<and> main_upload Inr example_to_float example_to_datetime bad_amount_frame initial_session
       = ([''Error processing file: could not convert string to float: ''
            @ [CHR 0x27] @ ''abc'' @ [CHR 0x27]], initial_session)"
proof -
  note caught = load_failure_caught [of Inr bad_amount_frame example_to_float example_to_datetime
                 initial_session]
  have "isl (load_body Inr example_to_float example_to_datetime (categories initial_session)
             bad_amount_frame)"
    using caught bad_amount_fails by blast
  moreover have "main_upload Inr example_to_float example_to_datetime bad_amount_frame
                   initial_session
       = ([''Error processing file: '' @ error_text (ValueError
             (''could not convert string to float: '' @ [CHR 0x27] @ ''abc'' @ [CHR 0x27]))],
          initial_session)"
    using caught bad_amount_body [of "categories initial_session"] by blast
  ultimately show ?thesis
    using bad_amount_fails by simp
qed

section \<open>The savings goal\<close>







end
